theory Spec2Isabelle
  imports Main
begin

section \<open>Calendar dates as the program uses them\<close>

text \<open>
  The program (\<^verbatim>\<open>src/python/main.py\<close>) works on \<^verbatim>\<open>datetime\<close> values of which only the
  fields \<^verbatim>\<open>year\<close>, \<^verbatim>\<open>month\<close> and \<^verbatim>\<open>day\<close> are ever read; the time of day is always
  midnight. A date is therefore a record of three unbounded integers.
\<close>

record datetime =
  year :: int
  month :: int
  day :: int

text \<open>
  The constructor \<^verbatim>\<open>datetime(y, m, d)\<close> of the standard library raises \<^verbatim>\<open>ValueError\<close>
  unless \<^verbatim>\<open>1 <= y <= 9999\<close>, \<^verbatim>\<open>1 <= m <= 12\<close> and \<^verbatim>\<open>1 <= d <= days_in_month(y, m)\<close>,
  where the length of February follows the proleptic Gregorian leap-year rule applied
  to the year number as given.
\<close>

datatype error = ValueError

definition is_leap :: "int \<Rightarrow> bool" where
  "is_leap y = (y mod 4 = 0 \<and> (y mod 100 \<noteq> 0 \<or> y mod 400 = 0))"

definition days_in_month :: "int \<Rightarrow> int \<Rightarrow> int" where
  "days_in_month y m =
     (if m = 2 then (if is_leap y then 29 else 28)
      else if m = 4 \<or> m = 6 \<or> m = 9 \<or> m = 11 then 30
      else 31)"

definition valid_fields :: "int \<Rightarrow> int \<Rightarrow> int \<Rightarrow> bool" where
  "valid_fields y m d =
     (1 \<le> y \<and> y \<le> 9999 \<and> 1 \<le> m \<and> m \<le> 12 \<and> 1 \<le> d \<and> d \<le> days_in_month y m)"

definition valid_date :: "datetime \<Rightarrow> bool" where
  "valid_date dt = valid_fields (year dt) (month dt) (day dt)"

definition new_datetime :: "int \<Rightarrow> int \<Rightarrow> int \<Rightarrow> error + datetime" where
  "new_datetime y m d =
     (if valid_fields y m d then Inr \<lparr>year = y, month = m, day = d\<rparr> else Inl ValueError)"

text \<open>Comparison of two dates is comparison of (year, month, day), as \<^verbatim>\<open>datetime.__le__\<close>.\<close>

definition date_le :: "datetime \<Rightarrow> datetime \<Rightarrow> bool" where
  "date_le a b =
     (year a < year b \<or>
      (year a = year b \<and> (month a < month b \<or> (month a = month b \<and> day a \<le> day b))))"

text \<open>
  The calendar date \<open>n\<close> months after a date, with the year carried over: the reading of
  ``birthdate + 6 months'' against which the window of the six-month branch is compared.
\<close>

definition plus_months :: "datetime \<Rightarrow> int \<Rightarrow> datetime" where
  "plus_months dt n =
     \<lparr>year = year dt + (month dt - 1 + n) div 12,
      month = (month dt - 1 + n) mod 12 + 1,
      day = day dt\<rparr>"

definition plus_years :: "datetime \<Rightarrow> int \<Rightarrow> datetime" where
  "plus_years dt n = \<lparr>year = year dt + n, month = month dt, day = day dt\<rparr>"

section \<open>Module constants\<close>

definition START_DATE :: datetime where
  "START_DATE = \<lparr>year = 2564, month = 6, day = 1\<rparr>"

definition END_DATE :: datetime where
  "END_DATE = \<lparr>year = 2564, month = 8, day = 31\<rparr>"

definition SENIOR_LOWER_AGE :: "int \<times> int" where
  "SENIOR_LOWER_AGE = (65, 0)"

definition CHILD_LOWER_AGE :: "int \<times> int" where
  "CHILD_LOWER_AGE = (0, 6)"

definition CHILD_UPPER_AGE :: "int \<times> int" where
  "CHILD_UPPER_AGE = (2, 0)"

text \<open>
  Ages are Python tuples of two integers, compared with \<^verbatim>\<open><=\<close> and \<^verbatim>\<open><\<close>: the first
  components decide unless they are equal, then the second ones do.
\<close>

fun tuple_le :: "int \<times> int \<Rightarrow> int \<times> int \<Rightarrow> bool" where
  "tuple_le (a, b) (c, d) = (a < c \<or> (a = c \<and> b \<le> d))"

fun tuple_lt :: "int \<times> int \<Rightarrow> int \<times> int \<Rightarrow> bool" where
  "tuple_lt (a, b) (c, d) = (a < c \<or> (a = c \<and> b < d))"

section \<open>Persons\<close>

datatype Gender = Male | Female

record Person =
  gender :: Gender
  birthdate :: datetime

text \<open>
  \<^verbatim>\<open>Person.calculate_age\<close>: the local \<^verbatim>\<open>age_years\<close> is assigned, then decremented under
  the condition of the source; \<^verbatim>\<open>%\<close> with a positive modulus is \<open>mod\<close> on \<open>int\<close>.
\<close>

definition calculate_age :: "Person \<Rightarrow> datetime \<Rightarrow> int \<times> int" where
  "calculate_age self set_date =
     (let age_years = year set_date - year (birthdate self);
          age_years =
            (if month set_date < month (birthdate self) \<or>
                (month set_date = month (birthdate self) \<and> day set_date < day (birthdate self))
             then age_years - 1 else age_years);
          age_months = ((month set_date - month (birthdate self)) + 12) mod 12
      in (age_years, age_months))"

text \<open>
  The guards of the four returning branches of \<^verbatim>\<open>Person.is_eligible\<close>, in the order of
  the source (lines 67--68, 72, 76 and 80--81), as functions of the two ages computed
  at the top of the method.
\<close>

definition rule_A :: "int \<times> int \<Rightarrow> int \<times> int \<Rightarrow> bool" where
  "rule_A age_at_start age_at_end =
     (tuple_le SENIOR_LOWER_AGE age_at_start \<or>
      (tuple_le CHILD_LOWER_AGE age_at_start \<and> tuple_le age_at_end CHILD_UPPER_AGE))"

definition rule_B :: "int \<times> int \<Rightarrow> int \<times> int \<Rightarrow> bool" where
  "rule_B age_at_start age_at_end = tuple_le SENIOR_LOWER_AGE age_at_end"

definition rule_C :: "int \<times> int \<Rightarrow> int \<times> int \<Rightarrow> bool" where
  "rule_C age_at_start age_at_end =
     (tuple_le CHILD_LOWER_AGE age_at_end \<and> tuple_lt age_at_end CHILD_UPPER_AGE)"

definition rule_D :: "int \<times> int \<Rightarrow> int \<times> int \<Rightarrow> bool" where
  "rule_D age_at_start age_at_end =
     (tuple_lt CHILD_UPPER_AGE age_at_end \<and>
      (tuple_le CHILD_LOWER_AGE age_at_start \<and> tuple_le age_at_start CHILD_UPPER_AGE))"

text \<open>
  \<^verbatim>\<open>Person.is_eligible\<close>. The result is the returned triple, \<^verbatim>\<open>None\<close> being \<open>None\<close>, or
  the \<^verbatim>\<open>ValueError\<close> of a date constructor called in the branch taken.
\<close>

type_synonym eligibility = "bool \<times> datetime option \<times> datetime option"

definition with_date :: "error + datetime \<Rightarrow> (datetime \<Rightarrow> eligibility) \<Rightarrow> error + eligibility" where
  "with_date r k = (case r of Inl e \<Rightarrow> Inl e | Inr dt \<Rightarrow> Inr (k dt))"

definition is_eligible :: "Person \<Rightarrow> error + eligibility" where
  "is_eligible self =
     (let age_at_start = calculate_age self START_DATE;
          age_at_end = calculate_age self END_DATE;
          dob = birthdate self
      in if rule_A age_at_start age_at_end then
           Inr (True, Some START_DATE, Some END_DATE)
         else if rule_B age_at_start age_at_end then
           with_date (new_datetime (year dob + 65) (month dob) (day dob))
             (\<lambda>dt. (True, Some dt, Some END_DATE))
         else if rule_C age_at_start age_at_end then
           with_date (new_datetime (year dob) (month dob + 6) (day dob))
             (\<lambda>dt. (True, Some dt, Some END_DATE))
         else if rule_D age_at_start age_at_end then
           with_date (new_datetime (year dob + 2) (month dob) (day dob))
             (\<lambda>dt. (True, Some START_DATE, Some dt))
         else Inr (False, None, None))"

section \<open>Statements of the specification\<close>

text \<open>
  The age pair as the specification words it: the difference of the years, less one
  exactly when the reference date lies before the anniversary, and the month-of-year
  difference normalised into \<open>0..11\<close>.
\<close>

definition spec_calculateAge :: "datetime \<Rightarrow> datetime \<Rightarrow> int \<times> int" where
  "spec_calculateAge bd ref =
     (year ref - year bd -
        (if month ref < month bd \<or> (month ref = month bd \<and> day ref < day bd) then 1 else 0),
      ((month ref - month bd) + 12) mod 12)"

text \<open>
  The invariant of an eligibility result: a negative verdict carries no dates; a positive
  one carries both, in order, inside the service period.
\<close>

fun result_invariant :: "eligibility \<Rightarrow> bool" where
  "result_invariant (False, ws, we) = (ws = None \<and> we = None)"
| "result_invariant (True, Some s, Some e) =
     (date_le s e \<and> date_le START_DATE s \<and> date_le e END_DATE)"
| "result_invariant (True, _, _) = False"

section \<open>Facts about ages and dates\<close>

lemmas age_bounds = SENIOR_LOWER_AGE_def CHILD_LOWER_AGE_def CHILD_UPPER_AGE_def

lemmas rule_guards = rule_A_def rule_B_def rule_C_def rule_D_def

lemma age_months_range: "0 \<le> snd (calculate_age p d) \<and> snd (calculate_age p d) < 12"
  by (simp add: calculate_age_def Let_def)

lemma valid_dateD:
  assumes "valid_date dt"
  shows "1 \<le> month dt" "month dt \<le> 12" "1 \<le> day dt" "day dt \<le> 31"
    "1 \<le> year dt" "year dt \<le> 9999" "day dt \<le> days_in_month (year dt) (month dt)"
  using assms
  by (auto simp: valid_date_def valid_fields_def days_in_month_def split: if_splits)

text \<open>The month-of-year difference, without \<open>mod\<close>, for months that are months.\<close>

lemma month_delta:
  fixes m r :: int
  assumes "1 \<le> m" "m \<le> 12" "1 \<le> r" "r \<le> 12"
  shows "((r - m) + 12) mod 12 = (if m \<le> r then r - m else r - m + 12)"
proof (cases "m \<le> r")
  case True
  have "((r - m) + 12) mod 12 = (r - m) mod 12"
    by simp
  also have "\<dots> = r - m"
    using True assms by (intro mod_pos_pos_trivial) auto
  finally show ?thesis
    using True by simp
next
  case False
  then have "((r - m) + 12) mod 12 = r - m + 12"
    using assms by (intro mod_pos_pos_trivial) auto
  then show ?thesis
    using False by simp
qed

text \<open>The two ages that \<open>is_eligible\<close> computes, in closed form.\<close>

lemma age_at_start_eq:
  assumes "valid_date (birthdate p)"
  shows "calculate_age p START_DATE =
    (2564 - year (birthdate p) -
       (if 6 < month (birthdate p) \<or> (month (birthdate p) = 6 \<and> 1 < day (birthdate p))
        then 1 else 0),
     if month (birthdate p) \<le> 6 then 6 - month (birthdate p) else 18 - month (birthdate p))"
  using valid_dateD(1,2) [OF assms] month_delta [of "month (birthdate p)" 6]
  by (auto simp: calculate_age_def Let_def START_DATE_def)

lemma age_at_end_eq:
  assumes "valid_date (birthdate p)"
  shows "calculate_age p END_DATE =
    (2564 - year (birthdate p) - (if 8 < month (birthdate p) then 1 else 0),
     if month (birthdate p) \<le> 8 then 8 - month (birthdate p) else 20 - month (birthdate p))"
  using valid_dateD(1,2,3,4) [OF assms] month_delta [of "month (birthdate p)" 8]
  by (auto simp: calculate_age_def Let_def END_DATE_def)

text \<open>Which birthdates reach each of the three branches that construct a date.\<close>

lemma rule_B_birth:
  assumes v: "valid_date (birthdate p)"
    and nA: "\<not> rule_A (calculate_age p START_DATE) (calculate_age p END_DATE)"
    and B: "rule_B (calculate_age p START_DATE) (calculate_age p END_DATE)"
  shows "year (birthdate p) = 2499 \<and> 6 \<le> month (birthdate p) \<and> month (birthdate p) \<le> 8"
  using nA B valid_dateD(1,2) [OF v]
  unfolding age_at_start_eq [OF v] age_at_end_eq [OF v] rule_guards age_bounds
  by (auto split: if_splits)

lemma rule_C_birth:
  assumes v: "valid_date (birthdate p)"
    and nA: "\<not> rule_A (calculate_age p START_DATE) (calculate_age p END_DATE)"
    and C: "rule_C (calculate_age p START_DATE) (calculate_age p END_DATE)"
  shows "(year (birthdate p) = 2564 \<and> month (birthdate p) \<le> 2) \<or>
         (year (birthdate p) = 2563 \<and> month (birthdate p) = 6 \<and> 2 \<le> day (birthdate p))"
  using nA C valid_dateD(1,2) [OF v]
  unfolding age_at_start_eq [OF v] age_at_end_eq [OF v] rule_guards age_bounds
  by (auto split: if_splits)

lemma rule_D_birth:
  assumes v: "valid_date (birthdate p)"
    and D: "rule_D (calculate_age p START_DATE) (calculate_age p END_DATE)"
  shows "(year (birthdate p) = 2561 \<or> year (birthdate p) = 2562) \<and>
         (month (birthdate p) = 6 \<or> month (birthdate p) = 7)"
  using D valid_dateD(1,2) [OF v]
  unfolding age_at_start_eq [OF v] age_at_end_eq [OF v] rule_guards age_bounds
  by (auto split: if_splits)

text \<open>The dates those branches construct are dates of the calendar.\<close>

lemma rule_B_date_valid:
  assumes v: "valid_date (birthdate p)"
    and nA: "\<not> rule_A (calculate_age p START_DATE) (calculate_age p END_DATE)"
    and B: "rule_B (calculate_age p START_DATE) (calculate_age p END_DATE)"
  shows "valid_fields (year (birthdate p) + 65) (month (birthdate p)) (day (birthdate p))"
  using rule_B_birth [OF v nA B] v
  by (auto simp: valid_date_def valid_fields_def days_in_month_def)

lemma rule_C_date_valid:
  assumes v: "valid_date (birthdate p)"
    and nA: "\<not> rule_A (calculate_age p START_DATE) (calculate_age p END_DATE)"
    and C: "rule_C (calculate_age p START_DATE) (calculate_age p END_DATE)"
  shows "valid_fields (year (birthdate p)) (month (birthdate p) + 6) (day (birthdate p))"
  using rule_C_birth [OF v nA C] valid_dateD [OF v]
  by (auto simp: valid_fields_def days_in_month_def)

lemma rule_D_date_valid:
  assumes v: "valid_date (birthdate p)"
    and D: "rule_D (calculate_age p START_DATE) (calculate_age p END_DATE)"
  shows "valid_fields (year (birthdate p) + 2) (month (birthdate p)) (day (birthdate p))"
  using rule_D_birth [OF v D] v
  by (auto simp: valid_date_def valid_fields_def days_in_month_def)

text \<open>Six months after a date of the first half of a year: same year, month plus six.\<close>

lemma plus_months_6:
  assumes "1 \<le> month dt" "month dt \<le> 6"
  shows "plus_months dt 6 = \<lparr>year = year dt, month = month dt + 6, day = day dt\<rparr>"
proof -
  have "(month dt - 1 + 6) div 12 = 0"
    using assms by (intro div_pos_pos_trivial) auto
  moreover have "(month dt - 1 + 6) mod 12 = month dt - 1 + 6"
    using assms by (intro mod_pos_pos_trivial) auto
  ultimately show ?thesis
    by (simp add: plus_months_def)
qed

section \<open>The claims\<close>

text \<open>
  Claim C3. For every birthdate and every reference date, \<open>calculate_age\<close> returns the
  pair of the specification: the difference of the years, less one exactly when the
  reference month is before the birth month or the months are equal and the reference
  day is before the birth day; and \<open>((refMonth - bdMonth) + 12) mod 12\<close> months. The
  months do not depend on the day of the month of either date.
\<close>

theorem calculate_age_refines_spec:
  "calculate_age p ref = spec_calculateAge (birthdate p) ref \<and>
   snd (calculate_age p (ref\<lparr>day := d\<rparr>)) = snd (calculate_age p ref) \<and>
   snd (calculate_age (p\<lparr>birthdate := (birthdate p)\<lparr>day := d'\<rparr>\<rparr>) ref) = snd (calculate_age p ref) \<and>
   snd (calculate_age p ref) = ((month ref - month (birthdate p)) + 12) mod 12"
  by (simp add: calculate_age_def spec_calculateAge_def Let_def)

text \<open>
  Claim C10. The age of a person at the very date of birth is \<open>(0, 0)\<close>, for every date.
\<close>

theorem calculate_age_same_date: "calculate_age p (birthdate p) = (0, 0)"
  by (simp add: calculate_age_def Let_def)

text \<open>
  Claim C8. A person whose age at the start of the period is at least (65, 0) is eligible
  for the whole period; the comparison is not strict, so a person who turns 65 on the
  first day of the period, born on 2499-06-01, is included.
\<close>

theorem senior_at_start_full_period:
  assumes "tuple_le SENIOR_LOWER_AGE (calculate_age p START_DATE)"
  shows "is_eligible p = Inr (True, Some START_DATE, Some END_DATE)"
  using assms by (simp add: is_eligible_def Let_def rule_A_def)

theorem senior_at_start_full_period_witness:
  "calculate_age \<lparr>gender = Male, birthdate = \<lparr>year = 2499, month = 6, day = 1\<rparr>\<rparr> START_DATE = (65, 0) \<and>
   tuple_le SENIOR_LOWER_AGE
     (calculate_age \<lparr>gender = Male, birthdate = \<lparr>year = 2499, month = 6, day = 1\<rparr>\<rparr> START_DATE) \<and>
   is_eligible \<lparr>gender = Male, birthdate = \<lparr>year = 2499, month = 6, day = 1\<rparr>\<rparr> =
     Inr (True, Some \<lparr>year = 2564, month = 6, day = 1\<rparr>, Some \<lparr>year = 2564, month = 8, day = 31\<rparr>)"
proof -
  let ?p = "\<lparr>gender = Male, birthdate = \<lparr>year = 2499, month = 6, day = 1\<rparr>\<rparr>"
  have age: "calculate_age ?p START_DATE = (65, 0)"
    by (simp add: calculate_age_def START_DATE_def Let_def)
  then have h: "tuple_le SENIOR_LOWER_AGE (calculate_age ?p START_DATE)"
    by (simp add: SENIOR_LOWER_AGE_def)
  from senior_at_start_full_period [OF h] age h show ?thesis
    by (simp add: START_DATE_def END_DATE_def)
qed

text \<open>
  Claim C9. The gender does not influence eligibility: two persons with the same
  birthdate get the same result, whatever their genders.
\<close>

theorem gender_irrelevant:
  assumes "birthdate p = birthdate q"
  shows "is_eligible p = is_eligible q"
  using assms by (simp add: is_eligible_def calculate_age_def)

theorem gender_irrelevant_witness:
  "Male \<noteq> Female \<and>
   is_eligible \<lparr>gender = Male, birthdate = \<lparr>year = 2564, month = 1, day = 5\<rparr>\<rparr> =
   is_eligible \<lparr>gender = Female, birthdate = \<lparr>year = 2564, month = 1, day = 5\<rparr>\<rparr>"
  using gender_irrelevant
    [of "\<lparr>gender = Male, birthdate = \<lparr>year = 2564, month = 1, day = 5\<rparr>\<rparr>"
        "\<lparr>gender = Female, birthdate = \<lparr>year = 2564, month = 1, day = 5\<rparr>\<rparr>"]
  by simp

text \<open>
  Claim C4. For a person whose birthdate is a date of the calendar, \<open>is_eligible\<close> returns
  a result and raises nothing: in each branch that can be reached, the date that the
  branch constructs (65 years later, 6 months later in the same year, 2 years later) is a
  date of the calendar.
\<close>

theorem is_eligible_never_raises:
  assumes v: "valid_date (birthdate p)"
  shows "(\<exists>r. is_eligible p = Inr r) \<and>
    (\<not> rule_A (calculate_age p START_DATE) (calculate_age p END_DATE) \<and>
     rule_B (calculate_age p START_DATE) (calculate_age p END_DATE) \<longrightarrow>
       valid_fields (year (birthdate p) + 65) (month (birthdate p)) (day (birthdate p))) \<and>
    (\<not> rule_A (calculate_age p START_DATE) (calculate_age p END_DATE) \<and>
     \<not> rule_B (calculate_age p START_DATE) (calculate_age p END_DATE) \<and>
     rule_C (calculate_age p START_DATE) (calculate_age p END_DATE) \<longrightarrow>
       valid_fields (year (birthdate p)) (month (birthdate p) + 6) (day (birthdate p))) \<and>
    (\<not> rule_A (calculate_age p START_DATE) (calculate_age p END_DATE) \<and>
     \<not> rule_B (calculate_age p START_DATE) (calculate_age p END_DATE) \<and>
     \<not> rule_C (calculate_age p START_DATE) (calculate_age p END_DATE) \<and>
     rule_D (calculate_age p START_DATE) (calculate_age p END_DATE) \<longrightarrow>
       valid_fields (year (birthdate p) + 2) (month (birthdate p)) (day (birthdate p)))"
proof -
  let ?s = "calculate_age p START_DATE" and ?e = "calculate_age p END_DATE"
  have B: "valid_fields (year (birthdate p) + 65) (month (birthdate p)) (day (birthdate p))"
    if "\<not> rule_A ?s ?e" "rule_B ?s ?e"
    using rule_B_date_valid [OF v that] .
  have C: "valid_fields (year (birthdate p)) (month (birthdate p) + 6) (day (birthdate p))"
    if "\<not> rule_A ?s ?e" "rule_C ?s ?e"
    using rule_C_date_valid [OF v that] .
  have D: "valid_fields (year (birthdate p) + 2) (month (birthdate p)) (day (birthdate p))"
    if "rule_D ?s ?e"
    using rule_D_date_valid [OF v that] .
  have "\<exists>r. is_eligible p = Inr r"
  proof (cases "rule_A ?s ?e")
    case True
    then show ?thesis
      by (auto simp: is_eligible_def Let_def)
  next
    case nA: False
    show ?thesis
    proof (cases "rule_B ?s ?e")
      case True
      with nA B [OF nA True] show ?thesis
        by (auto simp: is_eligible_def Let_def with_date_def new_datetime_def)
    next
      case nB: False
      show ?thesis
      proof (cases "rule_C ?s ?e")
        case True
        with nA nB C [OF nA True] show ?thesis
          by (auto simp: is_eligible_def Let_def with_date_def new_datetime_def)
      next
        case nC: False
        show ?thesis
        proof (cases "rule_D ?s ?e")
          case True
          with nA nB nC D [OF True] show ?thesis
            by (auto simp: is_eligible_def Let_def with_date_def new_datetime_def)
        next
          case False
          with nA nB nC show ?thesis
            by (auto simp: is_eligible_def Let_def)
        qed
      qed
    qed
  qed
  with B C D show ?thesis
    by blast
qed

theorem is_eligible_never_raises_witness:
  "valid_date \<lparr>year = 2499, month = 7, day = 5\<rparr> \<and>
   is_eligible \<lparr>gender = Female, birthdate = \<lparr>year = 2499, month = 7, day = 5\<rparr>\<rparr> =
     Inr (True, Some \<lparr>year = 2564, month = 7, day = 5\<rparr>, Some END_DATE) \<and>
   valid_fields 2564 7 5"
proof -
  let ?p = "\<lparr>gender = Female, birthdate = \<lparr>year = 2499, month = 7, day = 5\<rparr>\<rparr>"
  have v: "valid_date (birthdate ?p)"
    by (simp add: valid_date_def valid_fields_def days_in_month_def)
  have s: "calculate_age ?p START_DATE = (64, 11)"
    by (simp add: calculate_age_def START_DATE_def Let_def)
  have e: "calculate_age ?p END_DATE = (65, 1)"
    by (simp add: calculate_age_def END_DATE_def Let_def)
  from is_eligible_never_raises [OF v] have "valid_fields 2564 7 5"
    unfolding s e by (simp add: rule_guards age_bounds)
  moreover have "is_eligible ?p = Inr (True, Some \<lparr>year = 2564, month = 7, day = 5\<rparr>, Some END_DATE)"
    unfolding is_eligible_def s e Let_def using \<open>valid_fields 2564 7 5\<close>
    by (simp add: rule_guards age_bounds with_date_def new_datetime_def)
  ultimately show ?thesis
    using v by simp
qed

text \<open>
  Claim C6. A person who is younger than (65, 0) at the start of the period, at least
  (65, 0) at its end, and for whom the first branch does not apply, is eligible from the
  65th birthday (same month and day, 65 years later) to the end of the period.
\<close>

theorem ages_into_senior_window:
  assumes v: "valid_date (birthdate p)"
    and below: "tuple_lt (calculate_age p START_DATE) SENIOR_LOWER_AGE"
    and reached: "tuple_le SENIOR_LOWER_AGE (calculate_age p END_DATE)"
    and nA: "\<not> rule_A (calculate_age p START_DATE) (calculate_age p END_DATE)"
  shows "is_eligible p = Inr (True, Some (plus_years (birthdate p) 65), Some END_DATE)"
proof -
  have B: "rule_B (calculate_age p START_DATE) (calculate_age p END_DATE)"
    using reached by (simp add: rule_B_def)
  from rule_B_date_valid [OF v nA B] nA B show ?thesis
    by (simp add: is_eligible_def Let_def with_date_def new_datetime_def plus_years_def)
qed

theorem ages_into_senior_window_witness:
  "valid_date \<lparr>year = 2499, month = 8, day = 31\<rparr> \<and>
   calculate_age \<lparr>gender = Male, birthdate = \<lparr>year = 2499, month = 8, day = 31\<rparr>\<rparr> START_DATE = (64, 10) \<and>
   calculate_age \<lparr>gender = Male, birthdate = \<lparr>year = 2499, month = 8, day = 31\<rparr>\<rparr> END_DATE = (65, 0) \<and>
   is_eligible \<lparr>gender = Male, birthdate = \<lparr>year = 2499, month = 8, day = 31\<rparr>\<rparr> =
     Inr (True, Some \<lparr>year = 2564, month = 8, day = 31\<rparr>, Some \<lparr>year = 2564, month = 8, day = 31\<rparr>)"
proof -
  let ?p = "\<lparr>gender = Male, birthdate = \<lparr>year = 2499, month = 8, day = 31\<rparr>\<rparr>"
  have v: "valid_date (birthdate ?p)"
    by (simp add: valid_date_def valid_fields_def days_in_month_def)
  have s: "calculate_age ?p START_DATE = (64, 10)"
    by (simp add: calculate_age_def START_DATE_def Let_def)
  have e: "calculate_age ?p END_DATE = (65, 0)"
    by (simp add: calculate_age_def END_DATE_def Let_def)
  have below: "tuple_lt (calculate_age ?p START_DATE) SENIOR_LOWER_AGE"
    unfolding s by (simp add: age_bounds)
  have reached: "tuple_le SENIOR_LOWER_AGE (calculate_age ?p END_DATE)"
    unfolding e by (simp add: age_bounds)
  have nA: "\<not> rule_A (calculate_age ?p START_DATE) (calculate_age ?p END_DATE)"
    unfolding s e by (simp add: rule_guards age_bounds)
  from ages_into_senior_window [OF v below reached nA] v s e show ?thesis
    by (simp add: plus_years_def END_DATE_def)
qed

text \<open>
  Claim C7. A person for whom neither of the first two branches applies and whose age at
  the end of the period is at least (0, 6) and below (2, 0) is eligible from the date six
  months after the birthdate to the end of the period. In particular this is the result
  for a person aged (0, 5) at the start and (0, 7) at the end of the period.
\<close>

theorem ages_into_child_window:
  assumes v: "valid_date (birthdate p)"
  shows "(\<not> rule_A (calculate_age p START_DATE) (calculate_age p END_DATE) \<and>
          \<not> rule_B (calculate_age p START_DATE) (calculate_age p END_DATE) \<and>
          tuple_le CHILD_LOWER_AGE (calculate_age p END_DATE) \<and>
          tuple_lt (calculate_age p END_DATE) CHILD_UPPER_AGE \<longrightarrow>
            is_eligible p = Inr (True, Some (plus_months (birthdate p) 6), Some END_DATE)) \<and>
         (calculate_age p END_DATE = (0, 7) \<and> calculate_age p START_DATE = (0, 5) \<longrightarrow>
            is_eligible p = Inr (True, Some (plus_months (birthdate p) 6), Some END_DATE))"
proof -
  let ?s = "calculate_age p START_DATE" and ?e = "calculate_age p END_DATE"
  have window: "is_eligible p = Inr (True, Some (plus_months (birthdate p) 6), Some END_DATE)"
    if nA: "\<not> rule_A ?s ?e" and nB: "\<not> rule_B ?s ?e" and C: "rule_C ?s ?e"
  proof -
    from rule_C_birth [OF v nA C] valid_dateD(1) [OF v]
    have "plus_months (birthdate p) 6 =
        \<lparr>year = year (birthdate p), month = month (birthdate p) + 6, day = day (birthdate p)\<rparr>"
      by (intro plus_months_6) auto
    with rule_C_date_valid [OF v nA C] nA nB C show ?thesis
      by (simp add: is_eligible_def Let_def with_date_def new_datetime_def)
  qed
  have general: "is_eligible p = Inr (True, Some (plus_months (birthdate p) 6), Some END_DATE)"
    if "\<not> rule_A ?s ?e" "\<not> rule_B ?s ?e" "tuple_le CHILD_LOWER_AGE ?e" "tuple_lt ?e CHILD_UPPER_AGE"
    using that window by (simp add: rule_C_def)
  have particular: "is_eligible p = Inr (True, Some (plus_months (birthdate p) 6), Some END_DATE)"
    if e: "?e = (0, 7)" and s: "?s = (0, 5)"
  proof (rule window)
    show "\<not> rule_A ?s ?e" "\<not> rule_B ?s ?e" "rule_C ?s ?e"
      unfolding e s by (simp_all add: rule_guards age_bounds)
  qed
  from general particular show ?thesis
    by blast
qed

theorem ages_into_child_window_witness:
  "valid_date \<lparr>year = 2564, month = 1, day = 5\<rparr> \<and>
   calculate_age \<lparr>gender = Female, birthdate = \<lparr>year = 2564, month = 1, day = 5\<rparr>\<rparr> END_DATE = (0, 7) \<and>
   calculate_age \<lparr>gender = Female, birthdate = \<lparr>year = 2564, month = 1, day = 5\<rparr>\<rparr> START_DATE = (0, 5) \<and>
   is_eligible \<lparr>gender = Female, birthdate = \<lparr>year = 2564, month = 1, day = 5\<rparr>\<rparr> =
     Inr (True, Some \<lparr>year = 2564, month = 7, day = 5\<rparr>, Some \<lparr>year = 2564, month = 8, day = 31\<rparr>)"
proof -
  let ?p = "\<lparr>gender = Female, birthdate = \<lparr>year = 2564, month = 1, day = 5\<rparr>\<rparr>"
  have v: "valid_date (birthdate ?p)"
    by (simp add: valid_date_def valid_fields_def days_in_month_def)
  have s: "calculate_age ?p START_DATE = (0, 5)"
    by (simp add: calculate_age_def START_DATE_def Let_def)
  have e: "calculate_age ?p END_DATE = (0, 7)"
    by (simp add: calculate_age_def END_DATE_def Let_def)
  from ages_into_child_window [OF v] s e
  have "is_eligible ?p = Inr (True, Some (plus_months (birthdate ?p) 6), Some END_DATE)"
    by blast
  with v s e show ?thesis
    by (simp add: plus_months_def END_DATE_def)
qed

text \<open>
  Claim C1. The result of \<open>is_eligible\<close> should satisfy the invariant of an eligibility
  result: with a positive verdict, the window is ordered and lies inside the service
  period. The method does not keep it. A person born on 2563-06-15 is given a window that
  starts on 2563-12-15, before the period starts; a person born on 2561-06-15 is given a
  window that ends on 2563-06-15, before it starts. Both come from the months of
  \<open>calculate_age\<close> being 0 at the start of the period for anyone born later in June,
  whatever the years.
\<close>

theorem window_outside_period:
  "valid_date \<lparr>year = 2563, month = 6, day = 15\<rparr> \<and>
   is_eligible \<lparr>gender = Female, birthdate = \<lparr>year = 2563, month = 6, day = 15\<rparr>\<rparr> =
     Inr (True, Some \<lparr>year = 2563, month = 12, day = 15\<rparr>, Some END_DATE) \<and>
   \<not> date_le START_DATE \<lparr>year = 2563, month = 12, day = 15\<rparr> \<and>
   \<not> result_invariant (True, Some \<lparr>year = 2563, month = 12, day = 15\<rparr>, Some END_DATE) \<and>
   valid_date \<lparr>year = 2561, month = 6, day = 15\<rparr> \<and>
   is_eligible \<lparr>gender = Female, birthdate = \<lparr>year = 2561, month = 6, day = 15\<rparr>\<rparr> =
     Inr (True, Some START_DATE, Some \<lparr>year = 2563, month = 6, day = 15\<rparr>) \<and>
   \<not> date_le START_DATE \<lparr>year = 2563, month = 6, day = 15\<rparr> \<and>
   \<not> result_invariant (True, Some START_DATE, Some \<lparr>year = 2563, month = 6, day = 15\<rparr>)"
  by (simp add: is_eligible_def calculate_age_def Let_def rule_guards age_bounds
      START_DATE_def END_DATE_def with_date_def new_datetime_def valid_date_def valid_fields_def
      days_in_month_def date_le_def)

text \<open>
  Claim C2, as stated: a person aged exactly (2, 0) at the end of the period, and inside
  the child bracket at its start, would be decided by the fourth branch (window up to the
  second birthday) and not by the first. A person born on 2562-08-15 refutes it: the
  guard of the first branch holds, that of the fourth does not, and the window is the
  full period.
\<close>

theorem exactly_two_at_end_counterexample:
  "valid_date \<lparr>year = 2562, month = 8, day = 15\<rparr> \<and>
   calculate_age \<lparr>gender = Female, birthdate = \<lparr>year = 2562, month = 8, day = 15\<rparr>\<rparr> END_DATE = (2, 0) \<and>
   tuple_le CHILD_LOWER_AGE
     (calculate_age \<lparr>gender = Female, birthdate = \<lparr>year = 2562, month = 8, day = 15\<rparr>\<rparr> START_DATE) \<and>
   tuple_le
     (calculate_age \<lparr>gender = Female, birthdate = \<lparr>year = 2562, month = 8, day = 15\<rparr>\<rparr> START_DATE)
     CHILD_UPPER_AGE \<and>
   rule_A
     (calculate_age \<lparr>gender = Female, birthdate = \<lparr>year = 2562, month = 8, day = 15\<rparr>\<rparr> START_DATE)
     (calculate_age \<lparr>gender = Female, birthdate = \<lparr>year = 2562, month = 8, day = 15\<rparr>\<rparr> END_DATE) \<and>
   \<not> rule_D
     (calculate_age \<lparr>gender = Female, birthdate = \<lparr>year = 2562, month = 8, day = 15\<rparr>\<rparr> START_DATE)
     (calculate_age \<lparr>gender = Female, birthdate = \<lparr>year = 2562, month = 8, day = 15\<rparr>\<rparr> END_DATE) \<and>
   is_eligible \<lparr>gender = Female, birthdate = \<lparr>year = 2562, month = 8, day = 15\<rparr>\<rparr> =
     Inr (True, Some START_DATE, Some END_DATE) \<and>
   is_eligible \<lparr>gender = Female, birthdate = \<lparr>year = 2562, month = 8, day = 15\<rparr>\<rparr> \<noteq>
     Inr (True, Some START_DATE,
       Some (plus_years \<lparr>year = 2562, month = 8, day = 15\<rparr> 2))"
  by (simp add: is_eligible_def calculate_age_def Let_def rule_guards age_bounds
      START_DATE_def END_DATE_def valid_date_def valid_fields_def days_in_month_def plus_years_def)

text \<open>
  Claim C2, amended. A person aged exactly (2, 0) at the end of the period, and inside the
  child bracket at its start, is decided by the first branch: the comparison
  \<open>age_at_end <= CHILD_UPPER_AGE\<close> is not strict, the guard of the fourth branch is
  false, and the window is the full period.
\<close>

theorem exactly_two_at_end_full_period:
  assumes e: "calculate_age p END_DATE = (2, 0)"
    and lo: "tuple_le CHILD_LOWER_AGE (calculate_age p START_DATE)"
    and hi: "tuple_le (calculate_age p START_DATE) CHILD_UPPER_AGE"
  shows "rule_A (calculate_age p START_DATE) (calculate_age p END_DATE) \<and>
         \<not> rule_D (calculate_age p START_DATE) (calculate_age p END_DATE) \<and>
         is_eligible p = Inr (True, Some START_DATE, Some END_DATE)"
proof -
  have A: "rule_A (calculate_age p START_DATE) (calculate_age p END_DATE)"
    using lo unfolding e by (simp add: rule_A_def CHILD_UPPER_AGE_def)
  have nD: "\<not> rule_D (calculate_age p START_DATE) (calculate_age p END_DATE)"
    unfolding e by (simp add: rule_D_def CHILD_UPPER_AGE_def)
  from A nD show ?thesis
    by (simp add: is_eligible_def Let_def)
qed

theorem exactly_two_at_end_full_period_witness:
  "calculate_age \<lparr>gender = Male, birthdate = \<lparr>year = 2562, month = 8, day = 31\<rparr>\<rparr> END_DATE = (2, 0) \<and>
   calculate_age \<lparr>gender = Male, birthdate = \<lparr>year = 2562, month = 8, day = 31\<rparr>\<rparr> START_DATE = (1, 10) \<and>
   is_eligible \<lparr>gender = Male, birthdate = \<lparr>year = 2562, month = 8, day = 31\<rparr>\<rparr> =
     Inr (True, Some \<lparr>year = 2564, month = 6, day = 1\<rparr>, Some \<lparr>year = 2564, month = 8, day = 31\<rparr>)"
proof -
  let ?p = "\<lparr>gender = Male, birthdate = \<lparr>year = 2562, month = 8, day = 31\<rparr>\<rparr>"
  have s: "calculate_age ?p START_DATE = (1, 10)"
    by (simp add: calculate_age_def START_DATE_def Let_def)
  have e: "calculate_age ?p END_DATE = (2, 0)"
    by (simp add: calculate_age_def END_DATE_def Let_def)
  have lo: "tuple_le CHILD_LOWER_AGE (calculate_age ?p START_DATE)"
    unfolding s by (simp add: age_bounds)
  have hi: "tuple_le (calculate_age ?p START_DATE) CHILD_UPPER_AGE"
    unfolding s by (simp add: age_bounds)
  from exactly_two_at_end_full_period [OF e lo hi] s e show ?thesis
    by (simp add: START_DATE_def END_DATE_def)
qed

text \<open>
  Claim C5, as stated: the years of every age pair would be non-negative. They are not
  when the birthdate lies after the reference date: born on 2564-09-01, the age at
  2564-06-01 is \<open>(-1, 9)\<close>.
\<close>

theorem age_years_negative_counterexample:
  "valid_date \<lparr>year = 2564, month = 9, day = 1\<rparr> \<and> valid_date START_DATE \<and>
   calculate_age \<lparr>gender = Female, birthdate = \<lparr>year = 2564, month = 9, day = 1\<rparr>\<rparr> START_DATE = (- 1, 9) \<and>
   \<not> 0 \<le> fst (calculate_age \<lparr>gender = Female, birthdate = \<lparr>year = 2564, month = 9, day = 1\<rparr>\<rparr> START_DATE)"
  by (simp add: calculate_age_def Let_def START_DATE_def valid_date_def valid_fields_def
      days_in_month_def)

text \<open>
  Claim C5, amended. For every birthdate and every reference date the months of the age
  pair are in \<open>0..11\<close>; the years are non-negative whenever the birthdate is not after
  the reference date.
\<close>

theorem age_range:
  "0 \<le> snd (calculate_age p ref) \<and> snd (calculate_age p ref) \<le> 11 \<and>
   (date_le (birthdate p) ref \<longrightarrow> 0 \<le> fst (calculate_age p ref))"
proof -
  have "0 \<le> fst (calculate_age p ref)" if "date_le (birthdate p) ref"
    using that by (auto simp: date_le_def calculate_age_def Let_def)
  with age_months_range [of p ref] show ?thesis
    by auto
qed

theorem age_range_witness:
  "date_le \<lparr>year = 2499, month = 3, day = 10\<rparr> START_DATE \<and>
   calculate_age \<lparr>gender = Female, birthdate = \<lparr>year = 2499, month = 3, day = 10\<rparr>\<rparr> START_DATE = (65, 3) \<and>
   0 \<le> fst (calculate_age \<lparr>gender = Female, birthdate = \<lparr>year = 2499, month = 3, day = 10\<rparr>\<rparr> START_DATE) \<and>
   0 \<le> snd (calculate_age \<lparr>gender = Female, birthdate = \<lparr>year = 2499, month = 3, day = 10\<rparr>\<rparr> START_DATE) \<and>
   snd (calculate_age \<lparr>gender = Female, birthdate = \<lparr>year = 2499, month = 3, day = 10\<rparr>\<rparr> START_DATE) \<le> 11"
proof -
  let ?p = "\<lparr>gender = Female, birthdate = \<lparr>year = 2499, month = 3, day = 10\<rparr>\<rparr>"
  have d: "date_le (birthdate ?p) START_DATE"
    by (simp add: date_le_def START_DATE_def)
  have a: "calculate_age ?p START_DATE = (65, 3)"
    by (simp add: calculate_age_def START_DATE_def Let_def)
  from age_range [of ?p START_DATE] d a show ?thesis
    by simp
qed

end
